theory Spec2Isabelle
  imports Main
begin

section \<open>AutoDub front end (src/scripts/app.js): data model\<close>

text \<open>
  Strings: a \<^typ>\<open>char\<close> stands for one UTF-16 code unit below 256; strings holding
  larger code units are outside the model. The progress of an event is an integer (a
  fractional progress value is outside the model). A number \<open>n\<close> shown as a percentage is kept as \<open>n\<close>: the
  rendered text is the decimal of \<open>n\<close> followed by the percent sign, so \<open>0\<close> is the text
  "0%" and \<open>100\<close> the text "100%".
\<close>

subsection \<open>JavaScript completions and errors\<close>

datatype js_error = SyntaxError | TypeError | NetworkError | Error string

text \<open>
  How a block of statements ends: normally, or by throwing. Both carry the state reached,
  since what ran before a \<open>throw\<close> has already happened.
\<close>

datatype 'a completion = Normal 'a | Throw js_error 'a

text \<open>
  Text shown to the user: \<open>Tr key\<close> is \<open>tr(key)\<close>, the entry of the active language's
  translation table; \<open>Lit s\<close> is the string \<open>s\<close>; \<open>EngineMessage e\<close> is the \<open>message\<close> of
  a built-in error, whose wording the JavaScript engine chooses.
\<close>

datatype ui_text = Tr string | Lit string | EngineMessage js_error

fun error_message :: "js_error \<Rightarrow> ui_text" where
  "error_message (Error m) = Lit m"
| "error_message e = EngineMessage e"

subsection \<open>Progress events\<close>

text \<open>
  The four fields the handlers read from a parsed message. \<open>None\<close> is an absent field.
  \<open>step\<close> and \<open>status\<close> are only compared with \<open>===\<close>, \<open>!==\<close> and \<open>indexOf\<close> against
  strings, so \<open>None\<close> also stands for any value that is not a string. \<open>progress\<close> is
  an integer or absent and \<open>message\<close> a string or absent; other values of these two
  fields are outside the model.
\<close>

record progress_event =
  step :: "string option"
  progress :: "int option"
  message :: "string option"
  status :: "string option"

text \<open>
  The outcome of \<open>JSON.parse(e.data)\<close>: \<open>Malformed\<close> when it throws a SyntaxError,
  \<open>JsonNull\<close> for the value \<open>null\<close> (reading a property of it throws a TypeError),
  \<open>JsonEvent ev\<close> for any other value, seen through its four fields.
\<close>

datatype payload = Malformed | JsonNull | JsonEvent progress_event

text \<open>JavaScript truthiness of an optional string: absent and the empty string are falsy.\<close>

fun truthy :: "string option \<Rightarrow> bool" where
  "truthy None = False"
| "truthy (Some s) = (s \<noteq> [])"

text \<open>\<open>x || d\<close> for an optional string \<open>x\<close> and a string \<open>d\<close>.\<close>

fun or_else :: "string option \<Rightarrow> string \<Rightarrow> string" where
  "or_else None d = d"
| "or_else (Some s) d = (if s \<noteq> [] then s else d)"

subsection \<open>The page\<close>

text \<open>A \<open>.step\<close> element: its \<open>data-step\<close> attribute and the two classes the script toggles.\<close>

record step_el =
  data_step :: string
  cls_active :: bool
  cls_done :: bool

text \<open>What the script sends over the network, in order.\<close>

datatype net_call =
    PostDub string string string bool
  | PostVideoInfo string
  | PostDownloadStart string string string
  | GetDownload string
  | OpenEventSource string

text \<open>The "save file" button object that a click handler holds on to.\<close>

record save_btn =
  sb_disabled :: bool
  sb_text :: ui_text

record video_data =
  title :: "string option"

text \<open>
  The elements the script holds references to, those it queries, and its variables.
  \<open>steps\<close> are the \<open>.step\<close> elements in document order; \<open>step_lines\<close> are the
  \<open>.step-line\<close> elements, each \<open>True\<close> when it has class \<open>done\<close>; \<open>save_btns\<close> are the
  \<open>.dl-save-btn\<close> elements inside the download progress box, each given by the job it
  is bound to. \<open>toasts\<close>,
  \<open>console_errors\<close>, \<open>network\<close> and \<open>saved_files\<close> record the calls made, in order.
  \<open>appendLog\<close> prefixes the wall-clock time; \<open>logBox\<close> keeps the messages only.
\<close>

record page =
  urlInput_value :: string
  langSelect_value :: string
  genderSel_value :: string
  subCheck_checked :: bool
  submitBtn_disabled :: bool
  btnLabel_hidden :: bool
  btnLoader_hidden :: bool
  progressSec_hidden :: bool
  progressBar_width :: int
  progressPct_text :: int
  logBox :: "string list"
  steps :: "step_el list"
  step_lines :: "bool list"
  resultSec_hidden :: bool
  resultMeta_text :: string
  downloadLink_href :: string
  toast_text :: ui_text
  toast_success :: bool
  toast_hidden :: bool
  toasts :: "ui_text list"
  console_errors :: "string list"
  network :: "net_call list"
  dlUrl_value :: string
  formatSelect_value :: string
  videoData :: "video_data option"
  dlMediaType :: string
  fetchInfoBtn_disabled :: bool
  fetchInfoBtn_text :: ui_text
  dlStartBtn_disabled :: bool
  dlBtnLabel_hidden :: bool
  dlBtnLoader_hidden :: bool
  dlProgress_hidden :: bool
  dlProgressBar_width :: int
  dlProgressPct_text :: int
  dlProgressMsg_text :: ui_text
  save_btns :: "string list"
  saved_files :: "string list"

text \<open>An \<open>EventSource\<close> object: its URL and whether \<open>close()\<close> was called on it.\<close>

record event_source =
  es_url :: string
  es_closed :: bool

section \<open>Helpers\<close>

definition STEP_ORDER :: "string list" where
  "STEP_ORDER = [''init'', ''download'', ''transcribe'', ''translate'', ''synthesize'', ''render'']"

text \<open>\<open>Array.prototype.indexOf\<close>: the first position of the value, or \<open>-1\<close>.\<close>

primrec indexOf :: "'a list \<Rightarrow> 'a \<Rightarrow> int" where
  "indexOf [] x = -1"
| "indexOf (y # ys) x =
     (if y = x then 0 else (let r = indexOf ys x in if r < 0 then -1 else r + 1))"

text \<open>\<open>STEP_ORDER.indexOf(step)\<close>: a step that is not a string equals no entry.\<close>

fun step_index :: "string option \<Rightarrow> int" where
  "step_index None = -1"
| "step_index (Some s) = indexOf STEP_ORDER s"

text \<open>
  \<open>showToast(msg, type)\<close>. The auto-dismiss timer is real time and is not modelled.
\<close>

definition showToast :: "ui_text \<Rightarrow> bool \<Rightarrow> page \<Rightarrow> page" where
  "showToast msg success s =
     s\<lparr>toast_text := msg, toast_success := success, toast_hidden := False,
       toasts := toasts s @ [msg]\<rparr>"

definition appendLog :: "string \<Rightarrow> page \<Rightarrow> page" where
  "appendLog msg s = s\<lparr>logBox := logBox s @ [msg]\<rparr>"

definition clear_step :: "step_el \<Rightarrow> step_el" where
  "clear_step el = el\<lparr>cls_active := False, cls_done := False\<rparr>"

definition resetProgress :: "page \<Rightarrow> page" where
  "resetProgress s =
     s\<lparr>progressBar_width := 0, progressPct_text := 0, logBox := [],
       steps := map clear_step (steps s),
       step_lines := map (\<lambda>_. False) (step_lines s)\<rparr>"

definition finish_step :: "step_el \<Rightarrow> step_el" where
  "finish_step el = el\<lparr>cls_active := False, cls_done := True\<rparr>"

definition markAllStepsDone :: "page \<Rightarrow> page" where
  "markAllStepsDone s =
     s\<lparr>steps := map finish_step (steps s),
       step_lines := map (\<lambda>_. True) (step_lines s),
       progressBar_width := 100, progressPct_text := 100\<rparr>"

definition unlockForm :: "page \<Rightarrow> page" where
  "unlockForm s =
     s\<lparr>submitBtn_disabled := False, btnLabel_hidden := False, btnLoader_hidden := True\<rparr>"

section \<open>The step indicator (handleProgressEvent)\<close>

text \<open>
  \<open>$(`.step[data-step="${s}"]`)\<close> is the first \<open>.step\<close> element whose attribute is \<open>s\<close>;
  \<open>update_first s f\<close> applies the callback's effect \<open>f\<close> to it, and does nothing when
  there is none (\<open>if (!el) return\<close>).
\<close>

primrec update_first :: "string \<Rightarrow> (step_el \<Rightarrow> step_el) \<Rightarrow> step_el list \<Rightarrow> step_el list" where
  "update_first s f [] = []"
| "update_first s f (el # els) =
     (if data_step el = s then f el # els else el # update_first s f els)"

text \<open>The callback body for the entry at position \<open>i\<close> of \<open>STEP_ORDER\<close>.\<close>

definition mark_step :: "int \<Rightarrow> string option \<Rightarrow> nat \<Rightarrow> step_el \<Rightarrow> step_el" where
  "mark_step idx st i el =
     (let el0 = el\<lparr>cls_active := False, cls_done := False\<rparr> in
      if int i < idx then el0\<lparr>cls_done := True\<rparr>
      else if int i = idx then
        (if st = Some ''complete'' then el0\<lparr>cls_done := True\<rparr> else el0\<lparr>cls_active := True\<rparr>)
      else el0)"

text \<open>\<open>STEP_ORDER.forEach((s, i) => ...)\<close>, from position \<open>i\<close> on.\<close>

fun forEach_step :: "int \<Rightarrow> string option \<Rightarrow> string list \<Rightarrow> nat \<Rightarrow> step_el list \<Rightarrow> step_el list" where
  "forEach_step idx st [] i els = els"
| "forEach_step idx st (s # ss) i els =
     forEach_step idx st ss (Suc i) (update_first s (mark_step idx st i) els)"

text \<open>\<open>$$(".step-line").forEach((line, i) => line.classList.toggle("done", i < idx))\<close>.\<close>

definition toggle_lines :: "int \<Rightarrow> bool list \<Rightarrow> bool list" where
  "toggle_lines idx ls = map (\<lambda>i. int i < idx) [0..<length ls]"

definition handleProgressEvent :: "progress_event \<Rightarrow> string \<Rightarrow> page \<Rightarrow> page" where
  "handleProgressEvent ev jobId s =
     (let s1 = (case progress ev of
                  Some p \<Rightarrow> if p \<ge> 0 then s\<lparr>progressBar_width := p, progressPct_text := p\<rparr> else s
                | None \<Rightarrow> s);
          idx = step_index (step ev);
          s2 = (if idx \<ge> 0
                then s1\<lparr>steps := forEach_step idx (status ev) STEP_ORDER 0 (steps s1),
                        step_lines := toggle_lines idx (step_lines s1)\<rparr>
                else s1);
          s3 = (if truthy (message ev) \<and> step ev \<noteq> Some ''heartbeat''
                then appendLog (or_else (message ev) []) s2 else s2);
          s4 = (if status ev = Some ''complete''
                then showToast (Tr ''toastComplete'') True
                       ((markAllStepsDone s3)
                          \<lparr>resultMeta_text := (case message ev of None \<Rightarrow> [] | Some m \<Rightarrow> m),
                           downloadLink_href := ''/api/download/'' @ jobId,
                           resultSec_hidden := False\<rparr>)
                else s3)
      in if status ev = Some ''error''
         then showToast (Lit (or_else (message ev) ''An error occurred during processing.''))
                False s4
         else s4)"

text \<open>Processing a sequence of events, one call of the handler per event.\<close>

definition process :: "progress_event list \<Rightarrow> string \<Rightarrow> page \<Rightarrow> page" where
  "process evs jobId s = fold (\<lambda>ev. handleProgressEvent ev jobId) evs s"

section \<open>The progress stream of a dub job (connectSSE)\<close>

definition connectSSE :: "string \<Rightarrow> page \<Rightarrow> event_source \<times> page" where
  "connectSSE jobId s =
     (\<lparr>es_url = ''/api/progress/'' @ jobId, es_closed = False\<rparr>,
      s\<lparr>network := network s @ [OpenEventSource (''/api/progress/'' @ jobId)]\<rparr>)"

definition terminal :: "progress_event \<Rightarrow> bool" where
  "terminal ev = (status ev = Some ''complete'' \<or> status ev = Some ''error'')"

text \<open>The \<open>try\<close> block of \<open>evtSource.onmessage\<close>.\<close>

fun sse_try :: "string \<Rightarrow> payload \<Rightarrow> event_source \<times> page \<Rightarrow> (event_source \<times> page) completion" where
  "sse_try jobId Malformed (es, s) = Throw SyntaxError (es, s)"
| "sse_try jobId JsonNull (es, s) = Throw TypeError (es, s)"
| "sse_try jobId (JsonEvent ev) (es, s) =
     (let s1 = handleProgressEvent ev jobId s in
      if status ev = Some ''complete'' \<or> status ev = Some ''error''
      then Normal (es\<lparr>es_closed := True\<rparr>, unlockForm s1)
      else Normal (es, s1))"

text \<open>\<open>console.error("SSE parse error", err)\<close>: the label is kept, the error object is not.\<close>

definition log_parse_error :: "page \<Rightarrow> page" where
  "log_parse_error s = s\<lparr>console_errors := console_errors s @ [''SSE parse error'']\<rparr>"

text \<open>\<open>evtSource.onmessage\<close>: the \<open>try\<close> block and its \<open>catch\<close>.\<close>

definition sse_onmessage :: "string \<Rightarrow> payload \<Rightarrow> event_source \<times> page \<Rightarrow> (event_source \<times> page) completion" where
  "sse_onmessage jobId p st =
     (case sse_try jobId p st of
        Normal r \<Rightarrow> Normal r
      | Throw e (es, s) \<Rightarrow> Normal (es, log_parse_error s))"

definition sse_onerror :: "event_source \<times> page \<Rightarrow> (event_source \<times> page) completion" where
  "sse_onerror st =
     (case st of (es, s) \<Rightarrow>
        Normal (es\<lparr>es_closed := True\<rparr>, unlockForm (showToast (Tr ''toastDisconnect'') False s)))"

text \<open>
  What the browser does with the stream, as the HTML standard defines \<open>EventSource\<close>: a
  message or a connection failure reaches the handlers only while the source is not
  closed, and an exception leaving a handler is reported without undoing what ran.
\<close>

datatype stream_event = Message payload | Disconnect

fun settle :: "'a completion \<Rightarrow> 'a" where
  "settle (Normal r) = r"
| "settle (Throw e r) = r"

fun dispatch ::
  "(payload \<Rightarrow> event_source \<times> page \<Rightarrow> (event_source \<times> page) completion) \<Rightarrow>
   (event_source \<times> page \<Rightarrow> (event_source \<times> page) completion) \<Rightarrow>
   stream_event \<Rightarrow> event_source \<times> page \<Rightarrow> event_source \<times> page" where
  "dispatch onmessage onerror (Message p) (es, s) =
     (if es_closed es then (es, s) else settle (onmessage p (es, s)))"
| "dispatch onmessage onerror Disconnect (es, s) =
     (if es_closed es then (es, s) else settle (onerror (es, s)))"

definition dub_stream :: "string \<Rightarrow> stream_event list \<Rightarrow> event_source \<times> page \<Rightarrow> event_source \<times> page" where
  "dub_stream jobId evs st = fold (dispatch (sse_onmessage jobId) sse_onerror) evs st"

section \<open>The dub form (submit handler)\<close>

text \<open>
  \<open>String.prototype.trim\<close> on code units below 256: tab, line feed, vertical tab, form
  feed, carriage return, space and no-break space are white space.
\<close>

definition is_space :: "char \<Rightarrow> bool" where
  "is_space c = (of_char c \<in> {9, 10, 11, 12, 13, 32, 160 :: nat})"

definition trim :: "string \<Rightarrow> string" where
  "trim s = rev (dropWhile is_space (rev (dropWhile is_space s)))"

text \<open>The decimal digits of a number, as \<open>`${res.status}`\<close> prints a status code.\<close>

fun decimal :: "nat \<Rightarrow> string" where
  "decimal n =
     (if n < 10 then [char_of (48 + n)]
      else decimal (n div 10) @ [char_of (48 + n mod 10)])"

declare decimal.simps [simp del]

text \<open>
  A JSON value. A number is given by the text JavaScript prints for it (its \<open>toString\<close>),
  which is all the script uses of a number in a response body; zero, printed \<open>0\<close>, is
  the only number that is falsy. An object lists its members in the order of the text.
\<close>

datatype json =
    JNull
  | JBool bool
  | JNum string
  | JStr string
  | JArr "json list"
  | JObj "(string \<times> json) list"

text \<open>JavaScript truthiness of a JSON value: arrays and objects are truthy, also when empty.\<close>

fun js_truthy :: "json \<Rightarrow> bool" where
  "js_truthy JNull = False"
| "js_truthy (JBool b) = b"
| "js_truthy (JNum n) = (n \<noteq> ''0'')"
| "js_truthy (JStr s) = (s \<noteq> [])"
| "js_truthy (JArr xs) = True"
| "js_truthy (JObj kvs) = True"

text \<open>\<open>Array.prototype.join\<close> on strings.\<close>

fun join :: "string \<Rightarrow> string list \<Rightarrow> string" where
  "join sep [] = []"
| "join sep [x] = x"
| "join sep (x # y # ys) = x @ sep @ join sep (y # ys)"

text \<open>
  The string conversion of a JSON value, as \<open>new Error(v)\<close> and a template literal apply
  it: an array is its elements joined by commas, a \<open>null\<close> element printing as nothing,
  and an object is the text \<open>[object Object]\<close>.
\<close>

fun to_string :: "json \<Rightarrow> string" where
  "to_string JNull = ''null''"
| "to_string (JBool b) = (if b then ''true'' else ''false'')"
| "to_string (JNum n) = n"
| "to_string (JStr s) = s"
| "to_string (JArr xs) = join '','' (map (\<lambda>x. if x = JNull then [] else to_string x) xs)"
| "to_string (JObj kvs) = ''[object Object]''"

text \<open>\<open>v || d\<close> turned into a string, for a field \<open>v\<close> that may be absent and a string \<open>d\<close>.\<close>

fun field_or :: "json option \<Rightarrow> string \<Rightarrow> string" where
  "field_or None d = d"
| "field_or (Some v) d = (if js_truthy v then to_string v else d)"

text \<open>
  What \<open>await fetch(...)\<close> gives: the promise rejects, or a response arrives with a
  status and a body. \<open>res.json()\<close> rejects on \<open>BodyNotJson\<close>; \<open>BodyNull\<close> is the JSON
  value \<open>null\<close>; \<open>BodyObject detail job_id\<close> is any other value, seen through the two
  fields the script reads: \<open>detail\<close>, any JSON value or absent, and \<open>job_id\<close>, a string or
  absent. A value that is not an object has neither field.
\<close>

datatype body = BodyNotJson | BodyNull | BodyObject "json option" "string option"

datatype fetch_outcome = FetchRejected | FetchResponse nat body

definition res_ok :: "nat \<Rightarrow> bool" where
  "res_ok st = (200 \<le> st \<and> st \<le> 299)"

text \<open>
  \<open>const err = await res.json().catch(() => ({})); throw new Error(err.detail || generic)\<close>
  for a response that is not ok: the error thrown.
\<close>

fun failure_error :: "string \<Rightarrow> nat \<Rightarrow> body \<Rightarrow> js_error" where
  "failure_error prefix st BodyNotJson = Error (prefix @ decimal st)"
| "failure_error prefix st BodyNull = TypeError"
| "failure_error prefix st (BodyObject detail job) = Error (field_or detail (prefix @ decimal st))"

text \<open>A template literal prints an absent value as \<open>undefined\<close>.\<close>

fun template :: "string option \<Rightarrow> string" where
  "template None = ''undefined''"
| "template (Some s) = s"

text \<open>The \<open>try\<close> block of the submit handler, once the request has been sent.\<close>

fun submit_try :: "fetch_outcome \<Rightarrow> page \<Rightarrow> (event_source option \<times> page) completion" where
  "submit_try FetchRejected s = Throw NetworkError (None, s)"
| "submit_try (FetchResponse st b) s =
     (if \<not> res_ok st then Throw (failure_error ''Server error '' st b) (None, s)
      else (case b of
              BodyNotJson \<Rightarrow> Throw SyntaxError (None, s)
            | BodyNull \<Rightarrow> Throw TypeError (None, s)
            | BodyObject detail job \<Rightarrow>
                (case connectSSE (template job) s of (es, s') \<Rightarrow> Normal (Some es, s'))))"

text \<open>
  The submit handler of the dub form. The outcome of the request is a parameter, read
  only when the request is sent. The result holds the \<open>EventSource\<close> opened, if any.
\<close>

definition form_submit :: "fetch_outcome \<Rightarrow> page \<Rightarrow> event_source option \<times> page" where
  "form_submit outcome s =
     (let url = trim (urlInput_value s);
          lang = langSelect_value s;
          gender = genderSel_value s;
          sub = subCheck_checked s
      in if url = [] then (None, showToast (Tr ''toastNoUrl'') False s)
         else
           (let s1 = s\<lparr>submitBtn_disabled := True, btnLabel_hidden := True,
                       btnLoader_hidden := False, resultSec_hidden := True\<rparr>;
                s2 = (resetProgress s1)\<lparr>progressSec_hidden := False\<rparr>;
                s3 = s2\<lparr>network := network s2 @ [PostDub url lang gender sub]\<rparr>
            in case submit_try outcome s3 of
                 Normal r \<Rightarrow> r
               | Throw err (es, s4) \<Rightarrow> (es, unlockForm (showToast (error_message err) False s4))))"

section \<open>The download panel\<close>

text \<open>
  The click handler of the fetch-info button up to its \<open>await fetch(...)\<close>: the
  validation, the busy state of the button and the request.
\<close>

definition fetchInfo_click :: "page \<Rightarrow> page" where
  "fetchInfo_click s =
     (let url = trim (dlUrl_value s)
      in if url = [] then showToast (Tr ''toastNoUrl'') False s
         else s\<lparr>fetchInfoBtn_disabled := True, fetchInfoBtn_text := Tr ''fetchingInfo'',
                network := network s @ [PostVideoInfo url]\<rparr>)"

definition resetDlUI :: "page \<Rightarrow> page" where
  "resetDlUI s =
     s\<lparr>dlProgress_hidden := True, dlProgressBar_width := 0, dlProgressPct_text := 0,
       dlProgressMsg_text := Lit [], save_btns := []\<rparr>"

definition unlockDlBtn :: "page \<Rightarrow> page" where
  "unlockDlBtn s =
     s\<lparr>dlStartBtn_disabled := False, dlBtnLabel_hidden := False, dlBtnLoader_hidden := True\<rparr>"

text \<open>The \<open>try\<close> block of the download stream's \<open>onmessage\<close>, for the job \<open>job_id\<close>.\<close>

fun dl_try :: "string \<Rightarrow> payload \<Rightarrow> event_source \<times> page \<Rightarrow> (event_source \<times> page) completion" where
  "dl_try job_id Malformed (es, s) = Throw SyntaxError (es, s)"
| "dl_try job_id JsonNull (es, s) = Throw TypeError (es, s)"
| "dl_try job_id (JsonEvent ev) (es, s) =
     (let s1 = (case progress ev of
                  Some p \<Rightarrow> if p \<ge> 0 \<and> p \<le> 100
                            then s\<lparr>dlProgressBar_width := p, dlProgressPct_text := p\<rparr> else s
                | None \<Rightarrow> s);
          s2 = (if truthy (message ev)
                then s1\<lparr>dlProgressMsg_text := Lit (or_else (message ev) [])\<rparr> else s1)
      in if status ev = Some ''complete''
         then Normal (es\<lparr>es_closed := True\<rparr>,
                unlockDlBtn
                  (s2\<lparr>dlProgressMsg_text :=
                        (if truthy (message ev) then Lit (or_else (message ev) [])
                         else Tr ''dlComplete''),
                      save_btns := [job_id]\<rparr>))
         else if status ev = Some ''error''
         then Normal (es\<lparr>es_closed := True\<rparr>,
                unlockDlBtn (showToast (Lit (or_else (message ev) ''Download failed'')) False s2))
         else Normal (es, s2))"

definition dl_onmessage :: "string \<Rightarrow> payload \<Rightarrow> event_source \<times> page \<Rightarrow> (event_source \<times> page) completion" where
  "dl_onmessage job_id p st =
     (case dl_try job_id p st of
        Normal r \<Rightarrow> Normal r
      | Throw e (es, s) \<Rightarrow> Normal (es, log_parse_error s))"

definition dl_onerror :: "event_source \<times> page \<Rightarrow> (event_source \<times> page) completion" where
  "dl_onerror st =
     (case st of (es, s) \<Rightarrow>
        Normal (es\<lparr>es_closed := True\<rparr>, unlockDlBtn (showToast (Tr ''toastDisconnect'') False s)))"

definition dl_stream :: "string \<Rightarrow> stream_event list \<Rightarrow> event_source \<times> page \<Rightarrow> event_source \<times> page" where
  "dl_stream job_id evs st = fold (dispatch (dl_onmessage job_id) dl_onerror) evs st"

text \<open>The \<open>try\<close> block of the start-download handler, once the request has been sent.\<close>

fun dlStart_try :: "fetch_outcome \<Rightarrow> page \<Rightarrow> (event_source option \<times> page) completion" where
  "dlStart_try FetchRejected s = Throw NetworkError (None, s)"
| "dlStart_try (FetchResponse st b) s =
     (if \<not> res_ok st then Throw (failure_error ''Error '' st b) (None, s)
      else (case b of
              BodyNotJson \<Rightarrow> Throw SyntaxError (None, s)
            | BodyNull \<Rightarrow> Throw TypeError (None, s)
            | BodyObject detail job \<Rightarrow>
                Normal (Some \<lparr>es_url = ''/api/progress/'' @ template job, es_closed = False\<rparr>,
                        s\<lparr>network := network s @
                             [OpenEventSource (''/api/progress/'' @ template job)]\<rparr>)))"

text \<open>The click handler of the start-download button, the outcome of its request a parameter.\<close>

definition dlStart_click :: "fetch_outcome \<Rightarrow> page \<Rightarrow> event_source option \<times> page" where
  "dlStart_click outcome s =
     (let url = trim (dlUrl_value s);
          formatId = formatSelect_value s
      in if url = [] \<or> formatId = [] then (None, s)
         else
           (let s1 = resetDlUI s;
                s2 = s1\<lparr>dlStartBtn_disabled := True, dlBtnLabel_hidden := True,
                        dlBtnLoader_hidden := False, dlProgress_hidden := False,
                        dlProgressBar_width := 0, dlProgressPct_text := 0,
                        dlProgressMsg_text := Tr ''dlDownloading''\<rparr>;
                s3 = s2\<lparr>network := network s2 @ [PostDownloadStart url formatId (dlMediaType s2)]\<rparr>
            in case dlStart_try outcome s3 of
                 Normal r \<Rightarrow> r
               | Throw err (es, s4) \<Rightarrow> (es, unlockDlBtn (showToast (error_message err) False s4))))"

subsection \<open>Saving the finished file\<close>

text \<open>The characters of the class \<open>[\\/:*?"<>|]\<close>.\<close>

definition unsafe_chars :: "char list" where
  "unsafe_chars =
     [CHR 0x5C, CHR ''/'', CHR '':'', CHR ''*'', CHR ''?'', CHR 0x22, CHR ''<'', CHR ''>'', CHR ''|'']"

text \<open>\<open>title.replace(/[\\/:*?"<>|]/g, "_")\<close>.\<close>

definition sanitize :: "string \<Rightarrow> string" where
  "sanitize t = map (\<lambda>c. if c \<in> set unsafe_chars then CHR ''_'' else c) t"

definition save_ext :: "string \<Rightarrow> string" where
  "save_ext mediaType = (if mediaType = ''audio'' then ''.mp3'' else ''.mp4'')"

text \<open>\<open>(videoData && videoData.title) ? videoData.title.replace(...) : "download"\<close>.\<close>

fun save_title :: "video_data option \<Rightarrow> string" where
  "save_title None = ''download''"
| "save_title (Some v) = (if truthy (title v) then sanitize (or_else (title v) []) else ''download'')"

definition saveName :: "page \<Rightarrow> string" where
  "saveName s = save_title (videoData s) @ save_ext (dlMediaType s)"

text \<open>
  What \<open>await fetch(`/api/download/${job_id}`)\<close> and \<open>await res.blob()\<close> give: the
  request fails, or a response arrives with a status and a body that can or cannot be
  read as a blob.
\<close>

datatype download_outcome = DownloadRejected | DownloadResponse nat bool

text \<open>
  \<open>saveBtn.onclick\<close> for the button of job \<open>job_id\<close>, run to its end. While the request
  is pending the button is disabled and shows a busy text (its leading hourglass sign is
  left out of the string). \<open>console.error(err)\<close> is recorded as one entry.
\<close>

definition saveBtn_onclick :: "string \<Rightarrow> download_outcome \<Rightarrow> save_btn \<times> page \<Rightarrow> save_btn \<times> page" where
  "saveBtn_onclick job_id outcome bs =
     (case bs of (btn, s) \<Rightarrow>
        (let originalText = sb_text btn;
             btn1 = btn\<lparr>sb_disabled := True, sb_text := Lit ''Getting file...''\<rparr>;
             s1 = s\<lparr>network := network s @ [GetDownload (''/api/download/'' @ job_id)]\<rparr>;
             failed = (btn1\<lparr>sb_disabled := False\<rparr>,
                       showToast (Lit ''Failed to save file'') False
                         (s1\<lparr>console_errors := console_errors s1 @ [''save error'']\<rparr>))
         in case outcome of
              DownloadRejected \<Rightarrow> failed
            | DownloadResponse code readable \<Rightarrow>
                if \<not> res_ok code then failed
                else if \<not> readable then failed
                else (btn1\<lparr>sb_disabled := False, sb_text := originalText\<rparr>,
                      s1\<lparr>saved_files := saved_files s1 @ [saveName s1]\<rparr>)))"

section \<open>A page to run the script on\<close>

text \<open>
  Modelled from the spec: the markup of the page is not part of the script. The page as
  loaded has one \<open>.step\<close> element for each stage of the fixed sequence, in its order,
  five \<open>.step-line\<close> elements between them, every control unlocked and nothing filled in.
\<close>

definition example_page :: page where
  "example_page =
     \<lparr>urlInput_value = [], langSelect_value = ''es'', genderSel_value = ''female'',
      subCheck_checked = False, submitBtn_disabled = False, btnLabel_hidden = False,
      btnLoader_hidden = True, progressSec_hidden = True, progressBar_width = 0,
      progressPct_text = 0, logBox = [],
      steps = map (\<lambda>n. \<lparr>data_step = n, cls_active = False, cls_done = False\<rparr>) STEP_ORDER,
      step_lines = [False, False, False, False, False], resultSec_hidden = True, resultMeta_text = [],
      downloadLink_href = [], toast_text = Lit [], toast_success = False,
      toast_hidden = True, toasts = [], console_errors = [], network = [],
      dlUrl_value = [], formatSelect_value = [], videoData = None, dlMediaType = ''video'',
      fetchInfoBtn_disabled = False, fetchInfoBtn_text = Tr ''fetchBtn'',
      dlStartBtn_disabled = False, dlBtnLabel_hidden = False, dlBtnLoader_hidden = True,
      dlProgress_hidden = True, dlProgressBar_width = 0, dlProgressPct_text = 0,
      dlProgressMsg_text = Lit [], save_btns = [], saved_files = []\<rparr>"


text \<open>The same page after video metadata with title \<open>t\<close> was fetched, for a media type.\<close>

definition page_with_title :: "string \<Rightarrow> string \<Rightarrow> page" where
  "page_with_title t mediaType =
     example_page\<lparr>videoData := Some \<lparr>title = Some t\<rparr>, dlMediaType := mediaType\<rparr>"

section \<open>What the claims speak about\<close>

text \<open>An event is recognized when its step is an entry of \<open>STEP_ORDER\<close>.\<close>

definition recognized :: "progress_event \<Rightarrow> bool" where
  "recognized ev = (step_index (step ev) \<ge> 0)"

text \<open>The rendered stage state: the \<open>.step\<close> elements and the lines between them.\<close>

definition stage_view :: "page \<Rightarrow> step_el list \<times> bool list" where
  "stage_view s = (steps s, step_lines s)"

text \<open>The rendered stage state together with the percentage (bar width and text).\<close>

definition progress_view :: "page \<Rightarrow> step_el list \<times> bool list \<times> int \<times> int" where
  "progress_view s = (steps s, step_lines s, progressBar_width s, progressPct_text s)"

text \<open>
  Modelled from the spec: the page's markup is not part of the script. A freshly
  initialized machine has every stage unvisited and inactive, no line done and the
  percentage at 0.
\<close>

definition fresh_machine :: "page \<Rightarrow> bool" where
  "fresh_machine f =
     (list_all (\<lambda>el. \<not> cls_active el \<and> \<not> cls_done el) (steps f) \<and>
      list_all (\<lambda>b. \<not> b) (step_lines f) \<and>
      progressBar_width f = 0 \<and> progressPct_text f = 0)"

text \<open>Two pages with the same \<open>.step\<close> elements (by attribute) and as many lines.\<close>

definition same_markup :: "page \<Rightarrow> page \<Rightarrow> bool" where
  "same_markup a b =
     (map data_step (steps a) = map data_step (steps b) \<and>
      length (step_lines a) = length (step_lines b))"

text \<open>Events used as concrete inputs.\<close>

definition running_event :: "string \<Rightarrow> int \<Rightarrow> progress_event" where
  "running_event name p = \<lparr>step = Some name, progress = Some p, message = None, status = Some ''running''\<rparr>"

definition complete_event :: "string \<Rightarrow> int \<Rightarrow> progress_event" where
  "complete_event name p = \<lparr>step = Some name, progress = Some p, message = None, status = Some ''complete''\<rparr>"

section \<open>The step indicator: basic facts\<close>

lemma data_step_mark_step [simp]: "data_step (mark_step idx st i el) = data_step el"
  by (simp add: mark_step_def Let_def)

lemma mark_step_absorb [simp]:
  "mark_step idx st i (mark_step idx' st' i' el) = mark_step idx st i el"
  by (simp add: mark_step_def Let_def)

lemma finish_mark_step [simp]: "finish_step (mark_step idx st i el) = finish_step el"
  by (simp add: mark_step_def finish_step_def Let_def)

lemma clear_mark_step [simp]: "clear_step (mark_step idx st i el) = clear_step el"
  by (simp add: mark_step_def clear_step_def Let_def)

lemma length_update_first [simp]: "length (update_first s f xs) = length xs"
  by (induction xs) auto

lemma map_update_first:
  "(\<And>x. h (f x) = h x) \<Longrightarrow> map h (update_first s f xs) = map h xs"
  by (induction xs) auto

text \<open>
  The callback resets both classes before it marks, so a second pass over the same
  entry forgets the first, and passes over different entries commute.
\<close>

lemma update_first_absorb:
  "(\<And>x. data_step (g x) = data_step x) \<Longrightarrow> (\<And>x. f (g x) = f x) \<Longrightarrow>
   update_first s f (update_first s g xs) = update_first s f xs"
  by (induction xs) auto

lemma update_first_commute:
  "s \<noteq> t \<Longrightarrow> (\<And>x. data_step (f x) = data_step x) \<Longrightarrow> (\<And>x. data_step (g x) = data_step x) \<Longrightarrow>
   update_first s f (update_first t g xs) = update_first t g (update_first s f xs)"
  by (induction xs) auto

lemma length_forEach_step [simp]: "length (forEach_step idx st ss i xs) = length xs"
  by (induction ss arbitrary: i xs) auto

lemma map_forEach_step:
  "(\<And>a b c x. h (mark_step a b c x) = h x) \<Longrightarrow> map h (forEach_step idx st ss i xs) = map h xs"
  by (induction ss arbitrary: i xs) (auto simp: map_update_first)

lemma forEach_step_commute:
  "s \<notin> set ss \<Longrightarrow>
   update_first s (mark_step a b c) (forEach_step idx st ss i xs) =
   forEach_step idx st ss i (update_first s (mark_step a b c) xs)"
proof (induction ss arbitrary: i xs)
  case Nil
  then show ?case by simp
next
  case (Cons t ss)
  then have "s \<noteq> t" and "s \<notin> set ss" by auto
  then show ?case
    using Cons.IH update_first_commute [of s t "mark_step a b c" "mark_step idx st i" xs]
    by simp
qed

text \<open>
  Running the loop over distinct entries on the outcome of an earlier run gives what
  the later run gives on its own.
\<close>

lemma forEach_step_absorb:
  "distinct ss \<Longrightarrow>
   forEach_step idx st ss i (forEach_step idx' st' ss i xs) = forEach_step idx st ss i xs"
proof (induction ss arbitrary: i xs)
  case Nil
  then show ?case by simp
next
  case (Cons s ss)
  then have notin: "s \<notin> set ss" and dist: "distinct ss" by auto
  have "forEach_step idx st (s # ss) i (forEach_step idx' st' (s # ss) i xs) =
        forEach_step idx st ss (Suc i)
          (update_first s (mark_step idx st i)
             (forEach_step idx' st' ss (Suc i) (update_first s (mark_step idx' st' i) xs)))"
    by simp
  also have "\<dots> = forEach_step idx st ss (Suc i)
          (forEach_step idx' st' ss (Suc i)
             (update_first s (mark_step idx st i) (update_first s (mark_step idx' st' i) xs)))"
    by (simp add: forEach_step_commute [OF notin])
  also have "\<dots> = forEach_step idx st ss (Suc i)
          (forEach_step idx' st' ss (Suc i) (update_first s (mark_step idx st i) xs))"
    by (simp add: update_first_absorb)
  also have "\<dots> = forEach_step idx st ss (Suc i) (update_first s (mark_step idx st i) xs)"
    by (rule Cons.IH [OF dist])
  finally show ?case by simp
qed

lemma distinct_STEP_ORDER: "distinct STEP_ORDER"
  by (simp add: STEP_ORDER_def)

text \<open>
  What one call of the handler does to the stage elements, the lines and the percentage.
\<close>

lemma steps_handleProgressEvent:
  "steps (handleProgressEvent ev j s) =
     (if status ev = Some ''complete'' then map finish_step (steps s)
      else if step_index (step ev) \<ge> 0
      then forEach_step (step_index (step ev)) (status ev) STEP_ORDER 0 (steps s)
      else steps s)"
  by (simp add: handleProgressEvent_def Let_def showToast_def markAllStepsDone_def
      appendLog_def map_forEach_step split: option.split)

lemma lines_handleProgressEvent:
  "step_lines (handleProgressEvent ev j s) =
     (if status ev = Some ''complete'' then replicate (length (step_lines s)) True
      else if step_index (step ev) \<ge> 0
      then toggle_lines (step_index (step ev)) (step_lines s)
      else step_lines s)"
  by (simp add: handleProgressEvent_def Let_def showToast_def markAllStepsDone_def
      appendLog_def toggle_lines_def map_replicate_const split: option.split)

lemma pct_handleProgressEvent:
  "progressPct_text (handleProgressEvent ev j s) =
     (if status ev = Some ''complete'' then 100
      else case progress ev of
             Some p \<Rightarrow> if p \<ge> 0 then p else progressPct_text s
           | None \<Rightarrow> progressPct_text s)"
  by (simp add: handleProgressEvent_def Let_def showToast_def markAllStepsDone_def
      appendLog_def split: option.split)

lemma bar_handleProgressEvent:
  "progressBar_width (handleProgressEvent ev j s) =
     (if status ev = Some ''complete'' then 100
      else case progress ev of
             Some p \<Rightarrow> if p \<ge> 0 then p else progressBar_width s
           | None \<Rightarrow> progressBar_width s)"
  by (simp add: handleProgressEvent_def Let_def showToast_def markAllStepsDone_def
      appendLog_def split: option.split)

lemma progress_view_cong:
  "progress_view a = progress_view b \<Longrightarrow>
   progress_view (handleProgressEvent ev j a) = progress_view (handleProgressEvent ev j b)"
  by (simp add: progress_view_def steps_handleProgressEvent lines_handleProgressEvent
      pct_handleProgressEvent bar_handleProgressEvent split: option.split)

lemma progress_view_process:
  "progress_view a = progress_view b \<Longrightarrow>
   progress_view (process evs j a) = progress_view (process evs j b)"
  unfolding process_def
proof (induction evs arbitrary: a b)
  case Nil
  then show ?case by simp
next
  case (Cons ev evs)
  from Cons.prems have "progress_view (handleProgressEvent ev j a) = progress_view (handleProgressEvent ev j b)"
    by (rule progress_view_cong)
  then have "progress_view (fold (\<lambda>ev. handleProgressEvent ev j) evs (handleProgressEvent ev j a)) =
             progress_view (fold (\<lambda>ev. handleProgressEvent ev j) evs (handleProgressEvent ev j b))"
    by (rule Cons.IH)
  then show ?case by simp
qed

lemma cleared_steps_eq':
  "length xs = length ys \<Longrightarrow> list_all (\<lambda>el. \<not> cls_active el \<and> \<not> cls_done el) xs \<Longrightarrow>
   map data_step xs = map data_step ys \<Longrightarrow> map clear_step ys = xs"
  by (induction xs ys rule: list_induct2) (simp_all add: clear_step_def)

lemma cleared_steps_eq:
  "list_all (\<lambda>el. \<not> cls_active el \<and> \<not> cls_done el) xs \<Longrightarrow>
   map data_step xs = map data_step ys \<Longrightarrow> map clear_step ys = xs"
  using cleared_steps_eq' map_eq_imp_length_eq by blast

lemma cleared_lines_eq:
  "length xs = length ys \<Longrightarrow> list_all (\<lambda>b. \<not> b) xs \<Longrightarrow> map (\<lambda>_. False) ys = xs"
  by (induction xs ys rule: list_induct2) simp_all

section \<open>Reset\<close>

text \<open>
  Claim C3. For every sequence of progress events, \<open>resetProgress\<close> followed by the
  sequence renders the same stages, lines and percentage as the sequence on a freshly
  initialized machine with the same markup, whatever the page showed before the reset.
\<close>

theorem reset_then_process_as_fresh:
  assumes "fresh_machine f" and "same_markup f s"
  shows "progress_view (process evs jobId (resetProgress s)) = progress_view (process evs jobId f)"
proof -
  have a: "list_all (\<lambda>el. \<not> cls_active el \<and> \<not> cls_done el) (steps f)"
    and b: "list_all (\<lambda>b. \<not> b) (step_lines f)"
    and c: "progressBar_width f = 0" "progressPct_text f = 0"
    using assms(1) by (simp_all add: fresh_machine_def)
  have d: "map data_step (steps f) = map data_step (steps s)"
    and e: "length (step_lines f) = length (step_lines s)"
    using assms(2) by (simp_all add: same_markup_def)
  have "steps (resetProgress s) = steps f"
    using cleared_steps_eq [OF a d] by (simp add: resetProgress_def)
  moreover have "step_lines (resetProgress s) = step_lines f"
    using cleared_lines_eq [OF e b] by (simp add: resetProgress_def)
  moreover have "progressBar_width (resetProgress s) = 0" "progressPct_text (resetProgress s) = 0"
    by (simp_all add: resetProgress_def)
  ultimately have "progress_view (resetProgress s) = progress_view f"
    using c by (simp add: progress_view_def)
  then show ?thesis by (rule progress_view_process)
qed

theorem reset_then_process_as_fresh_witness:
  "fresh_machine example_page \<and>
   same_markup example_page (markAllStepsDone example_page) \<and>
   progress_view (process [running_event ''translate'' 50, running_event ''transcribe'' 30] ''job1''
                    (resetProgress (markAllStepsDone example_page))) =
   progress_view (process [running_event ''translate'' 50, running_event ''transcribe'' 30] ''job1''
                    example_page)"
proof -
  have f: "fresh_machine example_page"
    by (simp add: fresh_machine_def example_page_def STEP_ORDER_def)
  have m: "same_markup example_page (markAllStepsDone example_page)"
    by (simp add: same_markup_def markAllStepsDone_def finish_step_def)
  from f m reset_then_process_as_fresh [OF f m] show ?thesis by simp
qed

section \<open>Visited stages under later events\<close>

text \<open>
  An element either is left alone by the loop or is the first one of its stage and gets
  the callback's marking.
\<close>

lemma nth_update_first:
  "k < length xs \<Longrightarrow>
   update_first s f xs ! k = xs ! k \<or>
   (data_step (xs ! k) = s \<and> update_first s f xs ! k = f (xs ! k))"
proof (induction xs arbitrary: k)
  case Nil
  then show ?case by simp
next
  case (Cons x xs)
  show ?case
  proof (cases k)
    case 0
    then show ?thesis by simp
  next
    case (Suc m)
    with Cons.prems have "m < length xs" by simp
    from Cons.IH [OF this] Suc show ?thesis by auto
  qed
qed

lemma forEach_step_keeps_done:
  "k < length xs \<Longrightarrow> cls_done (xs ! k) \<Longrightarrow>
   (\<And>m. m < length ss \<Longrightarrow> ss ! m = data_step (xs ! k) \<Longrightarrow> int (i + m) < idx) \<Longrightarrow>
   cls_done (forEach_step idx st ss i xs ! k) \<and>
   data_step (forEach_step idx st ss i xs ! k) = data_step (xs ! k)"
proof (induction ss arbitrary: i xs)
  case Nil
  then show ?case by simp
next
  case (Cons s ss)
  let ?ys = "update_first s (mark_step idx st i) xs"
  have len: "k < length ?ys" using Cons.prems(1) by simp
  have first: "s = data_step (xs ! k) \<Longrightarrow> int i < idx"
    using Cons.prems(3) [of 0] by simp
  have step: "cls_done (?ys ! k) \<and> data_step (?ys ! k) = data_step (xs ! k)"
    using nth_update_first [OF Cons.prems(1), of s "mark_step idx st i"] Cons.prems(2) first
    by (auto simp: mark_step_def Let_def)
  have rest: "\<And>m. m < length ss \<Longrightarrow> ss ! m = data_step (?ys ! k) \<Longrightarrow> int (Suc i + m) < idx"
  proof -
    fix m assume "m < length ss" and "ss ! m = data_step (?ys ! k)"
    then have "Suc m < length (s # ss)" and "(s # ss) ! Suc m = data_step (xs ! k)"
      using step by simp_all
    from Cons.prems(3) [OF this] show "int (Suc i + m) < idx" by simp
  qed
  have "cls_done (forEach_step idx st ss (Suc i) ?ys ! k) \<and>
        data_step (forEach_step idx st ss (Suc i) ?ys ! k) = data_step (?ys ! k)"
    using step rest by (intro Cons.IH [OF len]) simp_all
  then show ?case using step by simp
qed

lemma indexOf_ge: "- 1 \<le> indexOf ss x"
  by (induction ss) (auto simp: Let_def)

lemma indexOf_nth: "distinct ss \<Longrightarrow> m < length ss \<Longrightarrow> indexOf ss (ss ! m) = int m"
proof (induction ss arbitrary: m)
  case Nil
  then show ?case by simp
next
  case (Cons s ss)
  show ?case
  proof (cases m)
    case 0
    then show ?thesis by simp
  next
    case (Suc n)
    with Cons.prems have n: "n < length ss" and d: "distinct ss" and ne: "s \<noteq> ss ! n"
      by auto
    from Cons.IH [OF d n] have "indexOf ss (ss ! n) = int n" .
    with Suc ne show ?thesis by (simp add: Let_def)
  qed
qed

text \<open>
  Claim C1, as amended. A \<open>.step\<close> element that is rendered visited (class \<open>done\<close>)
  before an event is still rendered visited after it when the event's step is not
  recognized, or its status is \<open>complete\<close>, or the element's stage comes before the
  event's stage in \<open>STEP_ORDER\<close>. The indicator follows the index of the latest
  recognized event, not the highest index seen.
\<close>

theorem visited_stage_kept_below_event:
  assumes "k < length (steps s)" and "cls_done (steps s ! k)"
    and "\<not> recognized ev \<or> status ev = Some ''complete'' \<or>
         step_index (Some (data_step (steps s ! k))) < step_index (step ev)"
  shows "cls_done (steps (handleProgressEvent ev jobId s) ! k) \<and>
         data_step (steps (handleProgressEvent ev jobId s) ! k) = data_step (steps s ! k)"
proof (cases "status ev = Some ''complete''")
  case True
  then show ?thesis using assms(1) by (simp add: steps_handleProgressEvent finish_step_def)
next
  case False
  show ?thesis
  proof (cases "recognized ev")
    case False
    with \<open>status ev \<noteq> Some ''complete''\<close> show ?thesis
      using assms(2) by (simp add: steps_handleProgressEvent recognized_def)
  next
    case True
    with \<open>status ev \<noteq> Some ''complete''\<close> assms(3)
    have lt: "indexOf STEP_ORDER (data_step (steps s ! k)) < step_index (step ev)" by simp
    have "\<And>m. m < length STEP_ORDER \<Longrightarrow> STEP_ORDER ! m = data_step (steps s ! k) \<Longrightarrow>
             int (0 + m) < step_index (step ev)"
    proof -
      fix m assume "m < length STEP_ORDER" and eq: "STEP_ORDER ! m = data_step (steps s ! k)"
      then have "indexOf STEP_ORDER (STEP_ORDER ! m) = int m"
        by (intro indexOf_nth distinct_STEP_ORDER)
      with eq lt show "int (0 + m) < step_index (step ev)" by simp
    qed
    from forEach_step_keeps_done [OF assms(1) assms(2) this]
    show ?thesis using True \<open>status ev \<noteq> Some ''complete''\<close>
      by (simp add: steps_handleProgressEvent recognized_def)
  qed
qed

theorem visited_stage_kept_below_event_witness:
  "1 < length (steps (handleProgressEvent (running_event ''translate'' 50) ''job1''
                        (resetProgress example_page))) \<and>
   cls_done (steps (handleProgressEvent (running_event ''translate'' 50) ''job1''
                      (resetProgress example_page)) ! 1) \<and>
   cls_done (steps (handleProgressEvent (running_event ''transcribe'' 30) ''job1''
                      (handleProgressEvent (running_event ''translate'' 50) ''job1''
                         (resetProgress example_page))) ! 1)"
proof -
  let ?s = "handleProgressEvent (running_event ''translate'' 50) ''job1'' (resetProgress example_page)"
  have st: "steps ?s =
     [\<lparr>data_step = ''init'', cls_active = False, cls_done = True\<rparr>,
      \<lparr>data_step = ''download'', cls_active = False, cls_done = True\<rparr>,
      \<lparr>data_step = ''transcribe'', cls_active = False, cls_done = True\<rparr>,
      \<lparr>data_step = ''translate'', cls_active = True, cls_done = False\<rparr>,
      \<lparr>data_step = ''synthesize'', cls_active = False, cls_done = False\<rparr>,
      \<lparr>data_step = ''render'', cls_active = False, cls_done = False\<rparr>]"
    by (simp add: running_event_def steps_handleProgressEvent example_page_def
        resetProgress_def STEP_ORDER_def clear_step_def mark_step_def Let_def)
  have k: "1 < length (steps ?s)" and d: "cls_done (steps ?s ! 1)"
    by (simp_all add: st)
  have n: "data_step (steps ?s ! 1) = ''download''"
    by (simp add: st)
  have "step_index (Some ''download'') < step_index (step (running_event ''transcribe'' 30))"
    by (simp add: running_event_def STEP_ORDER_def)
  then have c: "\<not> recognized (running_event ''transcribe'' 30) \<or>
           status (running_event ''transcribe'' 30) = Some ''complete'' \<or>
           step_index (Some (data_step (steps ?s ! 1))) < step_index (step (running_event ''transcribe'' 30))"
    unfolding n by simp
  from visited_stage_kept_below_event [OF k d c, of "''job1''"] k d show ?thesis by simp
qed

text \<open>
  Claim C1 as stated fails: after \<open>translate\<close> the stage \<open>transcribe\<close> is rendered
  visited; the later event \<open>transcribe\<close>, whose index is lower, renders it active and no
  longer visited.
\<close>

theorem visited_stage_regresses:
  "step_index (step (running_event ''transcribe'' 30)) < step_index (step (running_event ''translate'' 50)) \<and>
   data_step (steps (process [running_event ''translate'' 50] ''job1'' (resetProgress example_page)) ! 2) = ''transcribe'' \<and>
   cls_done (steps (process [running_event ''translate'' 50] ''job1'' (resetProgress example_page)) ! 2) \<and>
   \<not> cls_done (steps (process [running_event ''translate'' 50, running_event ''transcribe'' 30] ''job1''
                  (resetProgress example_page)) ! 2) \<and>
   cls_active (steps (process [running_event ''translate'' 50] ''job1'' (resetProgress example_page)) ! 3) \<and>
   \<not> cls_active (steps (process [running_event ''translate'' 50, running_event ''transcribe'' 30] ''job1''
                  (resetProgress example_page)) ! 3) \<and>
   \<not> cls_done (steps (process [running_event ''translate'' 50, running_event ''transcribe'' 30] ''job1''
                  (resetProgress example_page)) ! 3)"
  by (simp add: process_def running_event_def steps_handleProgressEvent example_page_def resetProgress_def STEP_ORDER_def clear_step_def mark_step_def Let_def)

section \<open>Terminal events, malformed payloads and disconnects\<close>

text \<open>
  A closed source delivers nothing: the stream's later events leave source and page alone.
\<close>

lemma dispatch_closed:
  "es_closed es \<Longrightarrow> fold (dispatch onmessage onerror) evs (es, s) = (es, s)"
proof (induction evs)
  case Nil
  then show ?case by simp
next
  case (Cons ev evs)
  then show ?case by (cases ev) simp_all
qed

lemma submit_unlockForm [simp]: "submitBtn_disabled (unlockForm s) = False"
  by (simp add: unlockForm_def)

lemma steps_unlockForm [simp]: "steps (unlockForm s) = steps s"
  and lines_unlockForm [simp]: "step_lines (unlockForm s) = step_lines s"
  and pct_unlockForm [simp]: "progressPct_text (unlockForm s) = progressPct_text s"
  and bar_unlockForm [simp]: "progressBar_width (unlockForm s) = progressBar_width s"
  and href_unlockForm [simp]: "downloadLink_href (unlockForm s) = downloadLink_href s"
  and result_unlockForm [simp]: "resultSec_hidden (unlockForm s) = resultSec_hidden s"
  by (simp_all add: unlockForm_def)

lemma href_handleProgressEvent:
  "status ev = Some ''complete'' \<Longrightarrow>
   downloadLink_href (handleProgressEvent ev j s) = ''/api/download/'' @ j \<and>
   \<not> resultSec_hidden (handleProgressEvent ev j s)"
  by (simp add: handleProgressEvent_def Let_def showToast_def)

text \<open>
  Claim C8. For every dub-flow event with status \<open>complete\<close>, the message handler
  returns normally and leaves every \<open>.step\<close> element visited (class \<open>done\<close>, not
  \<open>active\<close>) and every line done, the percentage at 100%, the download link at
  \<open>/api/download/{jobId}\<close> with the result section revealed, and the submit control
  enabled.
\<close>

theorem complete_event_finishes_job:
  assumes "status ev = Some ''complete''"
  shows "\<exists>es' s'. sse_onmessage jobId (JsonEvent ev) (es, s) = Normal (es', s') \<and>
           steps s' = map finish_step (steps s) \<and>
           list_all (\<lambda>el. cls_done el \<and> \<not> cls_active el) (steps s') \<and>
           list_all (\<lambda>b. b) (step_lines s') \<and>
           length (step_lines s') = length (step_lines s) \<and>
           progressPct_text s' = 100 \<and> progressBar_width s' = 100 \<and>
           downloadLink_href s' = ''/api/download/'' @ jobId \<and>
           \<not> resultSec_hidden s' \<and>
           \<not> submitBtn_disabled s'"
proof -
  let ?s' = "unlockForm (handleProgressEvent ev jobId s)"
  have r: "sse_onmessage jobId (JsonEvent ev) (es, s) = Normal (es\<lparr>es_closed := True\<rparr>, ?s')"
    using assms by (simp add: sse_onmessage_def Let_def)
  have a: "steps ?s' = map finish_step (steps s)"
    using assms by (simp add: steps_handleProgressEvent)
  have b: "list_all (\<lambda>el. cls_done el \<and> \<not> cls_active el) (steps ?s')"
    unfolding a by (simp add: list_all_iff finish_step_def)
  have c: "step_lines ?s' = replicate (length (step_lines s)) True"
    using assms by (simp add: lines_handleProgressEvent)
  have d: "list_all (\<lambda>b. b) (step_lines ?s')"
    unfolding c by (simp add: list_all_iff)
  have e: "length (step_lines ?s') = length (step_lines s)"
    unfolding c by simp
  have f: "progressPct_text ?s' = 100" "progressBar_width ?s' = 100"
    using assms by (simp_all add: pct_handleProgressEvent bar_handleProgressEvent)
  have g: "downloadLink_href ?s' = ''/api/download/'' @ jobId" "\<not> resultSec_hidden ?s'"
    using href_handleProgressEvent [OF assms] by simp_all
  have h: "\<not> submitBtn_disabled ?s'" by simp
  from r a b d e f g h show ?thesis by blast
qed


lemma data_step_finish_step [simp]: "data_step (finish_step el) = data_step el"
  by (simp add: finish_step_def)

lemma data_step_clear_step [simp]: "data_step (clear_step el) = data_step el"
  by (simp add: clear_step_def)

lemma names_handleProgressEvent:
  "map data_step (steps (handleProgressEvent ev j s)) = map data_step (steps s)"
  by (simp add: steps_handleProgressEvent map_forEach_step o_def)

text \<open>
  The stream of the claim, \<open>download\<close> at 40% running and then \<open>render\<close> at 100%
  complete, on a page that was just reset: all six stages end visited and 100% is shown.
\<close>

theorem complete_event_finishes_job_witness:
  "status (complete_event ''render'' 100) = Some ''complete'' \<and>
   list_all (\<lambda>el. cls_done el \<and> \<not> cls_active el)
     (steps (snd (dub_stream ''job1''
        [Message (JsonEvent (running_event ''download'' 40)),
         Message (JsonEvent (complete_event ''render'' 100))]
        (connectSSE ''job1'' (resetProgress example_page))))) \<and>
   map data_step
     (steps (snd (dub_stream ''job1''
        [Message (JsonEvent (running_event ''download'' 40)),
         Message (JsonEvent (complete_event ''render'' 100))]
        (connectSSE ''job1'' (resetProgress example_page))))) = STEP_ORDER \<and>
   progressPct_text (snd (dub_stream ''job1''
        [Message (JsonEvent (running_event ''download'' 40)),
         Message (JsonEvent (complete_event ''render'' 100))]
        (connectSSE ''job1'' (resetProgress example_page)))) = 100 \<and>
   downloadLink_href (snd (dub_stream ''job1''
        [Message (JsonEvent (running_event ''download'' 40)),
         Message (JsonEvent (complete_event ''render'' 100))]
        (connectSSE ''job1'' (resetProgress example_page)))) = ''/api/download/job1'' \<and>
   \<not> submitBtn_disabled (snd (dub_stream ''job1''
        [Message (JsonEvent (running_event ''download'' 40)),
         Message (JsonEvent (complete_event ''render'' 100))]
        (connectSSE ''job1'' (resetProgress example_page))))"
proof -
  define es0 where "es0 = fst (connectSSE ''job1'' (resetProgress example_page))"
  define s0 where "s0 = snd (connectSSE ''job1'' (resetProgress example_page))"
  define s1 where "s1 = handleProgressEvent (running_event ''download'' 40) ''job1'' s0"
  have c: "status (complete_event ''render'' 100) = Some ''complete''"
    by (simp add: complete_event_def)
  from complete_event_finishes_job [OF c, of "''job1''" es0 s1]
  obtain es' s' where r: "sse_onmessage ''job1'' (JsonEvent (complete_event ''render'' 100)) (es0, s1) = Normal (es', s')"
    and st: "steps s' = map finish_step (steps s1)"
    and vis: "list_all (\<lambda>el. cls_done el \<and> \<not> cls_active el) (steps s')"
    and pct: "progressPct_text s' = 100"
    and href: "downloadLink_href s' = ''/api/download/'' @ ''job1''"
    and unl: "\<not> submitBtn_disabled s'"
    by blast
  have conn: "connectSSE ''job1'' (resetProgress example_page) = (es0, s0)"
    by (simp add: es0_def s0_def)
  have opn: "\<not> es_closed es0"
    by (simp add: es0_def connectSSE_def)
  have first: "dispatch (sse_onmessage ''job1'') sse_onerror
                 (Message (JsonEvent (running_event ''download'' 40))) (es0, s0) = (es0, s1)"
    using opn by (simp add: sse_onmessage_def running_event_def s1_def)
  have run: "dub_stream ''job1''
        [Message (JsonEvent (running_event ''download'' 40)),
         Message (JsonEvent (complete_event ''render'' 100))]
        (connectSSE ''job1'' (resetProgress example_page)) = (es', s')"
    unfolding conn dub_stream_def using first opn r by simp
  have "map data_step (steps s0) = STEP_ORDER"
    by (simp add: s0_def connectSSE_def resetProgress_def example_page_def o_def)
  then have names: "map data_step (steps s') = STEP_ORDER"
    by (simp add: st s1_def names_handleProgressEvent o_def)
  from c vis names pct href unl show ?thesis
    unfolding run by simp
qed

lemma es_closed_sse_onmessage:
  "terminal ev \<Longrightarrow> \<exists>es' s'. sse_onmessage jobId (JsonEvent ev) (es, s) = Normal (es', s') \<and> es_closed es'"
  by (auto simp: sse_onmessage_def terminal_def Let_def)

lemma es_closed_dl_onmessage:
  "terminal ev \<Longrightarrow> \<exists>es' s'. dl_onmessage jobId (JsonEvent ev) (es, s) = Normal (es', s') \<and> es_closed es'"
  by (auto simp: dl_onmessage_def terminal_def Let_def)

text \<open>
  Claim C2. After the handler has processed an event with status \<open>complete\<close> or
  \<open>error\<close>, the \<open>EventSource\<close> of the job is closed, and whatever the transport
  delivers afterwards changes nothing, in the dub flow and in the download flow.
\<close>

theorem terminal_event_closes_stream:
  assumes "terminal ev"
  shows "(\<exists>es' s'. sse_onmessage jobId (JsonEvent ev) (es, s) = Normal (es', s') \<and>
            es_closed es' \<and> dub_stream jobId later (es', s') = (es', s')) \<and>
         (\<exists>es' s'. dl_onmessage jobId (JsonEvent ev) (es, s) = Normal (es', s') \<and>
            es_closed es' \<and> dl_stream jobId later (es', s') = (es', s'))"
proof
  from es_closed_sse_onmessage [OF assms]
  obtain es' s' where "sse_onmessage jobId (JsonEvent ev) (es, s) = Normal (es', s')" and "es_closed es'"
    by blast
  then show "\<exists>es' s'. sse_onmessage jobId (JsonEvent ev) (es, s) = Normal (es', s') \<and>
            es_closed es' \<and> dub_stream jobId later (es', s') = (es', s')"
    by (auto simp: dub_stream_def dispatch_closed)
next
  from es_closed_dl_onmessage [OF assms]
  obtain es' s' where "dl_onmessage jobId (JsonEvent ev) (es, s) = Normal (es', s')" and "es_closed es'"
    by blast
  then show "\<exists>es' s'. dl_onmessage jobId (JsonEvent ev) (es, s) = Normal (es', s') \<and>
            es_closed es' \<and> dl_stream jobId later (es', s') = (es', s')"
    by (auto simp: dl_stream_def dispatch_closed)
qed

text \<open>
  Claim C6. A message whose payload is not well-formed JSON: the handler returns
  normally, the \<open>EventSource\<close> is as it was (still open when it was open), and the page is
  unchanged but for the one diagnostic written to the console, in both flows.
\<close>

theorem malformed_payload_dropped:
  "sse_onmessage jobId Malformed (es, s) =
     Normal (es, s\<lparr>console_errors := console_errors s @ [''SSE parse error'']\<rparr>) \<and>
   dl_onmessage jobId Malformed (es, s) =
     Normal (es, s\<lparr>console_errors := console_errors s @ [''SSE parse error'']\<rparr>)"
  by (simp add: sse_onmessage_def dl_onmessage_def log_parse_error_def)

text \<open>
  Claim C7. A disconnect of a stream that is still open: the \<open>EventSource\<close> is closed,
  one "lost connection" notification is added, the submit control (the start control in
  the download flow) is enabled, nothing is sent over the network, and no later event of
  the stream (a message or another disconnect) changes the outcome.
\<close>

theorem disconnect_closes_without_retry:
  assumes "\<not> es_closed es"
  shows "(\<exists>es' s'. dub_stream jobId [Disconnect] (es, s) = (es', s') \<and>
            dub_stream jobId (Disconnect # later) (es, s) = (es', s') \<and>
            es_closed es' \<and> toasts s' = toasts s @ [Tr ''toastDisconnect''] \<and>
            \<not> submitBtn_disabled s' \<and> network s' = network s) \<and>
         (\<exists>es' s'. dl_stream jobId [Disconnect] (es, s) = (es', s') \<and>
            dl_stream jobId (Disconnect # later) (es, s) = (es', s') \<and>
            es_closed es' \<and> toasts s' = toasts s @ [Tr ''toastDisconnect''] \<and>
            \<not> dlStartBtn_disabled s' \<and> network s' = network s)"
  using assms
  by (simp add: dub_stream_def dl_stream_def sse_onerror_def dl_onerror_def dispatch_closed
      unlockForm_def unlockDlBtn_def showToast_def)

theorem terminal_event_closes_stream_witness:
  "terminal (complete_event ''render'' 100) \<and>
   es_closed (fst (dub_stream ''job1'' [Message (JsonEvent (complete_event ''render'' 100))]
                     (connectSSE ''job1'' example_page))) \<and>
   dub_stream ''job1''
     [Message (JsonEvent (complete_event ''render'' 100)),
      Message (JsonEvent (running_event ''init'' 5)), Disconnect]
     (connectSSE ''job1'' example_page) =
   dub_stream ''job1'' [Message (JsonEvent (complete_event ''render'' 100))]
     (connectSSE ''job1'' example_page)"
proof -
  define es0 where "es0 = fst (connectSSE ''job1'' example_page)"
  define s0 where "s0 = snd (connectSSE ''job1'' example_page)"
  have conn: "connectSSE ''job1'' example_page = (es0, s0)"
    by (simp add: es0_def s0_def)
  have opn: "\<not> es_closed es0"
    by (simp add: es0_def connectSSE_def)
  have t: "terminal (complete_event ''render'' 100)"
    by (simp add: terminal_def complete_event_def)
  from terminal_event_closes_stream [OF t, of "''job1''" es0 s0
      "[Message (JsonEvent (running_event ''init'' 5)), Disconnect]"]
  obtain es' s' where r: "sse_onmessage ''job1'' (JsonEvent (complete_event ''render'' 100)) (es0, s0) = Normal (es', s')"
    and c: "es_closed es'"
    and l: "dub_stream ''job1'' [Message (JsonEvent (running_event ''init'' 5)), Disconnect] (es', s') = (es', s')"
    by blast
  have one: "dub_stream ''job1'' [Message (JsonEvent (complete_event ''render'' 100))] (es0, s0) = (es', s')"
    using opn r by (simp add: dub_stream_def)
  have "dub_stream ''job1''
     [Message (JsonEvent (complete_event ''render'' 100)),
      Message (JsonEvent (running_event ''init'' 5)), Disconnect] (es0, s0) =
     dub_stream ''job1'' [Message (JsonEvent (running_event ''init'' 5)), Disconnect]
       (dub_stream ''job1'' [Message (JsonEvent (complete_event ''render'' 100))] (es0, s0))"
    by (simp add: dub_stream_def)
  then have all: "dub_stream ''job1''
     [Message (JsonEvent (complete_event ''render'' 100)),
      Message (JsonEvent (running_event ''init'' 5)), Disconnect] (es0, s0) = (es', s')"
    unfolding one l .
  from t c show ?thesis unfolding conn one all by simp
qed

theorem malformed_payload_dropped_witness:
  "sse_onmessage ''job1'' Malformed (\<lparr>es_url = ''/api/progress/job1'', es_closed = False\<rparr>, example_page) =
     Normal (\<lparr>es_url = ''/api/progress/job1'', es_closed = False\<rparr>,
             example_page\<lparr>console_errors := [''SSE parse error'']\<rparr>) \<and>
   dl_onmessage ''job1'' Malformed (\<lparr>es_url = ''/api/progress/job1'', es_closed = False\<rparr>, example_page) =
     Normal (\<lparr>es_url = ''/api/progress/job1'', es_closed = False\<rparr>,
             example_page\<lparr>console_errors := [''SSE parse error'']\<rparr>)"
proof -
  have "console_errors example_page = []"
    by (simp add: example_page_def)
  with malformed_payload_dropped [of "''job1''" "\<lparr>es_url = ''/api/progress/job1'', es_closed = False\<rparr>" example_page]
  show ?thesis by simp
qed

theorem disconnect_closes_without_retry_witness:
  "\<not> es_closed (fst (connectSSE ''job1'' example_page)) \<and>
   es_closed (fst (dub_stream ''job1'' [Disconnect] (connectSSE ''job1'' example_page))) \<and>
   toasts (snd (dub_stream ''job1'' [Disconnect] (connectSSE ''job1'' example_page))) =
     [Tr ''toastDisconnect''] \<and>
   dub_stream ''job1'' [Disconnect, Disconnect, Message (JsonEvent (running_event ''init'' 5))]
     (connectSSE ''job1'' example_page) =
   dub_stream ''job1'' [Disconnect] (connectSSE ''job1'' example_page)"
proof -
  define es0 where "es0 = fst (connectSSE ''job1'' example_page)"
  define s0 where "s0 = snd (connectSSE ''job1'' example_page)"
  have conn: "connectSSE ''job1'' example_page = (es0, s0)"
    by (simp add: es0_def s0_def)
  have opn: "\<not> es_closed es0"
    by (simp add: es0_def connectSSE_def)
  have ts: "toasts s0 = []"
    by (simp add: s0_def connectSSE_def example_page_def)
  from disconnect_closes_without_retry [OF opn, of "''job1''" s0
      "[Disconnect, Message (JsonEvent (running_event ''init'' 5))]"]
  obtain es' s' where one: "dub_stream ''job1'' [Disconnect] (es0, s0) = (es', s')"
    and all: "dub_stream ''job1'' [Disconnect, Disconnect, Message (JsonEvent (running_event ''init'' 5))] (es0, s0) = (es', s')"
    and c: "es_closed es'" and n: "toasts s' = toasts s0 @ [Tr ''toastDisconnect'']"
    by blast
  from opn c n ts show ?thesis unfolding conn one all by simp
qed

section \<open>Validation and request failures\<close>

text \<open>
  Claim C4, as amended. With an empty URL (after trimming), the dub submit handler and
  the fetch-info handler send nothing, leave their controls as they were and show the
  validation notification: the page changes in the toast only. With an empty URL or no
  format id, the start-download handler sends nothing and leaves the whole page as it
  was.
\<close>

theorem empty_input_rejected:
  "(trim (urlInput_value s) = [] \<longrightarrow>
      form_submit outcome s =
        (None, s\<lparr>toast_text := Tr ''toastNoUrl'', toast_success := False, toast_hidden := False,
                 toasts := toasts s @ [Tr ''toastNoUrl'']\<rparr>)) \<and>
   (trim (dlUrl_value s) = [] \<longrightarrow>
      fetchInfo_click s =
        s\<lparr>toast_text := Tr ''toastNoUrl'', toast_success := False, toast_hidden := False,
          toasts := toasts s @ [Tr ''toastNoUrl'']\<rparr>) \<and>
   (trim (dlUrl_value s) = [] \<or> formatSelect_value s = [] \<longrightarrow>
      dlStart_click outcome s = (None, s))"
  by (simp add: form_submit_def fetchInfo_click_def dlStart_click_def showToast_def Let_def)

theorem empty_input_rejected_witness:
  "trim (urlInput_value example_page) = [] \<and> trim (dlUrl_value example_page) = [] \<and>
   network (snd (form_submit FetchRejected example_page)) = [] \<and>
   \<not> submitBtn_disabled (snd (form_submit FetchRejected example_page)) \<and>
   toasts (snd (form_submit FetchRejected example_page)) = [Tr ''toastNoUrl''] \<and>
   network (fetchInfo_click example_page) = [] \<and>
   \<not> fetchInfoBtn_disabled (fetchInfo_click example_page) \<and>
   toasts (fetchInfo_click example_page) = [Tr ''toastNoUrl''] \<and>
   dlStart_click FetchRejected example_page = (None, example_page)"
proof -
  have a: "trim (urlInput_value example_page) = []" and b: "trim (dlUrl_value example_page) = []"
    by (simp_all add: example_page_def trim_def)
  have c: "network example_page = []" "\<not> submitBtn_disabled example_page"
    "toasts example_page = []" "\<not> fetchInfoBtn_disabled example_page"
    by (simp_all add: example_page_def)
  from empty_input_rejected [of example_page FetchRejected] a b c show ?thesis by simp
qed

text \<open>
  Claim C4 as stated fails for the start-download handler: with an empty URL it returns
  without showing any notification.
\<close>

theorem download_start_rejects_silently:
  "trim (dlUrl_value example_page) = [] \<and>
   toasts example_page = [] \<and>
   toasts (snd (dlStart_click (FetchResponse 200 (BodyObject None (Some ''job1''))) example_page)) = []"
  by (simp add: dlStart_click_def example_page_def trim_def Let_def)






section \<open>The saved file name\<close>

lemma sanitize_safe: "set (sanitize t) \<inter> set unsafe_chars = {}"
  by (auto simp: sanitize_def unsafe_chars_def)

lemma saved_files_saveBtn_onclick:
  "res_ok st \<Longrightarrow>
   saved_files (snd (saveBtn_onclick job_id (DownloadResponse st True) (btn, s))) =
     saved_files s @ [saveName s]"
  by (simp add: saveBtn_onclick_def Let_def saveName_def)

text \<open>
  Claim C9. When a save action obtains the file, it saves it once, and a save action
  that fails saves nothing. The name saved under is the title part followed by \<open>.mp3\<close> when the media type is \<open>audio\<close> and \<open>.mp4\<close> otherwise. With a
  non-empty title the title part is the title with each of the characters
  \<open>\ / : * ? " < > |\<close> replaced by an underscore and every other character kept; with
  no video data, no title or an empty title it is \<open>download\<close>.
\<close>

theorem saved_file_name:
  assumes "res_ok st"
  shows "saved_files (snd (saveBtn_onclick job_id (DownloadResponse st True) (btn, s))) =
           saved_files s @ [saveName s] \<and>
         saved_files (snd (saveBtn_onclick job_id outcome (btn, s))) \<in>
           {saved_files s, saved_files s @ [saveName s]} \<and>
         saveName s = save_title (videoData s) @ (if dlMediaType s = ''audio'' then ''.mp3'' else ''.mp4'') \<and>
         (\<forall>v t. videoData s = Some v \<and> title v = Some t \<and> t \<noteq> [] \<longrightarrow>
            save_title (videoData s) =
              map (\<lambda>c. if c \<in> {CHR 0x5C, CHR ''/'', CHR '':'', CHR ''*'', CHR ''?'', CHR 0x22,
                                CHR ''<'', CHR ''>'', CHR ''|''} then CHR ''_'' else c) t \<and>
            CHR ''/'' \<notin> set (save_title (videoData s)) \<and>
            CHR ''?'' \<notin> set (save_title (videoData s)) \<and>
            set (save_title (videoData s)) \<inter> set unsafe_chars = {}) \<and>
         (videoData s = None \<or> (\<exists>v. videoData s = Some v \<and> (title v = None \<or> title v = Some [])) \<longrightarrow>
            save_title (videoData s) = ''download'')"
proof -
  have a: "saved_files (snd (saveBtn_onclick job_id (DownloadResponse st True) (btn, s))) =
           saved_files s @ [saveName s]"
    using assms by (rule saved_files_saveBtn_onclick)
  have b: "saveName s = save_title (videoData s) @ (if dlMediaType s = ''audio'' then ''.mp3'' else ''.mp4'')"
    by (simp add: saveName_def save_ext_def)
  have o: "saved_files (snd (saveBtn_onclick job_id outcome (btn, s))) \<in>
           {saved_files s, saved_files s @ [saveName s]}"
    by (cases outcome) (simp_all add: saveBtn_onclick_def Let_def saveName_def showToast_def)
  have c: "\<forall>v t. videoData s = Some v \<and> title v = Some t \<and> t \<noteq> [] \<longrightarrow>
            save_title (videoData s) =
              map (\<lambda>c. if c \<in> {CHR 0x5C, CHR ''/'', CHR '':'', CHR ''*'', CHR ''?'', CHR 0x22,
                                CHR ''<'', CHR ''>'', CHR ''|''} then CHR ''_'' else c) t \<and>
            CHR ''/'' \<notin> set (save_title (videoData s)) \<and>
            CHR ''?'' \<notin> set (save_title (videoData s)) \<and>
            set (save_title (videoData s)) \<inter> set unsafe_chars = {}"
  proof (intro allI impI)
    fix v t assume h: "videoData s = Some v \<and> title v = Some t \<and> t \<noteq> []"
    then have e: "save_title (videoData s) = sanitize t" by simp
    have "sanitize t = map (\<lambda>c. if c \<in> {CHR 0x5C, CHR ''/'', CHR '':'', CHR ''*'', CHR ''?'', CHR 0x22,
                                CHR ''<'', CHR ''>'', CHR ''|''} then CHR ''_'' else c) t"
      by (simp add: sanitize_def unsafe_chars_def)
    moreover have "CHR ''/'' \<notin> set (sanitize t)" "CHR ''?'' \<notin> set (sanitize t)"
      using sanitize_safe [of t] by (auto simp: unsafe_chars_def)
    ultimately show "save_title (videoData s) =
              map (\<lambda>c. if c \<in> {CHR 0x5C, CHR ''/'', CHR '':'', CHR ''*'', CHR ''?'', CHR 0x22,
                                CHR ''<'', CHR ''>'', CHR ''|''} then CHR ''_'' else c) t \<and>
            CHR ''/'' \<notin> set (save_title (videoData s)) \<and>
            CHR ''?'' \<notin> set (save_title (videoData s)) \<and>
            set (save_title (videoData s)) \<inter> set unsafe_chars = {}"
      unfolding e using sanitize_safe [of t] by simp
  qed
  have d: "videoData s = None \<or> (\<exists>v. videoData s = Some v \<and> (title v = None \<or> title v = Some [])) \<longrightarrow>
            save_title (videoData s) = ''download''"
    by auto
  from a o b c d show ?thesis by blast
qed

theorem saved_file_name_witness:
  "res_ok 200 \<and>
   saved_files (snd (saveBtn_onclick ''job1'' (DownloadResponse 200 True)
      (\<lparr>sb_disabled = False, sb_text = Tr ''dlSaveFile''\<rparr>, page_with_title ''a/b?c'' ''audio''))) =
     [''a_b_c.mp3''] \<and>
   saved_files (snd (saveBtn_onclick ''job1'' (DownloadResponse 200 True)
      (\<lparr>sb_disabled = False, sb_text = Tr ''dlSaveFile''\<rparr>, page_with_title ''a/b?c'' ''video''))) =
     [''a_b_c.mp4''] \<and>
   saved_files (snd (saveBtn_onclick ''job1'' (DownloadResponse 200 True)
      (\<lparr>sb_disabled = False, sb_text = Tr ''dlSaveFile''\<rparr>, example_page))) =
     [''download.mp4'']"
proof -
  have ok: "res_ok 200" by (simp add: res_ok_def)
  have t1: "saveName (page_with_title ''a/b?c'' ''audio'') = ''a_b_c.mp3''"
    and t2: "saveName (page_with_title ''a/b?c'' ''video'') = ''a_b_c.mp4''"
    and t3: "saveName example_page = ''download.mp4''"
    by (simp_all add: saveName_def page_with_title_def example_page_def sanitize_def
        unsafe_chars_def save_ext_def)
  have e: "saved_files (page_with_title ''a/b?c'' ''audio'') = []"
    "saved_files (page_with_title ''a/b?c'' ''video'') = []" "saved_files example_page = []"
    by (simp_all add: page_with_title_def example_page_def)
  from saved_file_name [OF ok, of "''job1''" "\<lparr>sb_disabled = False, sb_text = Tr ''dlSaveFile''\<rparr>" "page_with_title ''a/b?c'' ''audio''"]
    saved_file_name [OF ok, of "''job1''" "\<lparr>sb_disabled = False, sb_text = Tr ''dlSaveFile''\<rparr>" "page_with_title ''a/b?c'' ''video''"]
    saved_file_name [OF ok, of "''job1''" "\<lparr>sb_disabled = False, sb_text = Tr ''dlSaveFile''\<rparr>" "example_page"]
  show ?thesis unfolding t1 t2 t3 e using ok by simp
qed

section \<open>The stage state after a sequence of events\<close>

lemma process_Cons: "process (x # xs) j s = process xs j (handleProgressEvent x j s)"
  by (simp add: process_def)

lemma process_append: "process (xs @ ys) j s = process ys j (process xs j s)"
  by (simp add: process_def)

text \<open>
  An event that does not complete the job changes only what a later recognized event
  overwrites; the attributes of the elements and the number of lines never change.
\<close>

lemma slots_handleProgressEvent:
  "status x \<noteq> Some ''complete'' \<Longrightarrow>
   forEach_step idx st STEP_ORDER 0 (steps (handleProgressEvent x j s)) =
   forEach_step idx st STEP_ORDER 0 (steps s)"
  by (simp add: steps_handleProgressEvent forEach_step_absorb distinct_STEP_ORDER)

lemma finish_handleProgressEvent:
  "map finish_step (steps (handleProgressEvent x j s)) = map finish_step (steps s)"
  by (simp add: steps_handleProgressEvent map_forEach_step o_def finish_step_def)

lemma length_lines_handleProgressEvent:
  "length (step_lines (handleProgressEvent x j s)) = length (step_lines s)"
  by (simp add: lines_handleProgressEvent toggle_lines_def)

lemma slots_process:
  "\<forall>x\<in>set pre. status x \<noteq> Some ''complete'' \<Longrightarrow>
   forEach_step idx st STEP_ORDER 0 (steps (process pre j s)) =
   forEach_step idx st STEP_ORDER 0 (steps s)"
proof (induction pre arbitrary: s)
  case Nil
  then show ?case by (simp add: process_def)
next
  case (Cons x pre)
  then have "forEach_step idx st STEP_ORDER 0 (steps (process pre j (handleProgressEvent x j s))) =
             forEach_step idx st STEP_ORDER 0 (steps (handleProgressEvent x j s))"
    by simp
  also have "\<dots> = forEach_step idx st STEP_ORDER 0 (steps s)"
    using Cons.prems by (simp add: slots_handleProgressEvent)
  finally show ?case by (simp add: process_Cons)
qed

lemma finish_process:
  "map finish_step (steps (process pre j s)) = map finish_step (steps s)"
proof (induction pre arbitrary: s)
  case Nil
  then show ?case by (simp add: process_def)
next
  case (Cons x pre)
  have "map finish_step (steps (process pre j (handleProgressEvent x j s))) =
        map finish_step (steps (handleProgressEvent x j s))"
    by (rule Cons.IH)
  then show ?case by (simp add: process_Cons finish_handleProgressEvent)
qed

lemma length_lines_process:
  "length (step_lines (process pre j s)) = length (step_lines s)"
proof (induction pre arbitrary: s)
  case Nil
  then show ?case by (simp add: process_def)
next
  case (Cons x pre)
  have "length (step_lines (process pre j (handleProgressEvent x j s))) =
        length (step_lines (handleProgressEvent x j s))"
    by (rule Cons.IH)
  then show ?case by (simp add: process_Cons length_lines_handleProgressEvent)
qed

lemma stage_view_unrecognized:
  "\<not> recognized x \<Longrightarrow> status x \<noteq> Some ''complete'' \<Longrightarrow>
   stage_view (handleProgressEvent x j s) = stage_view s"
  by (simp add: stage_view_def steps_handleProgressEvent lines_handleProgressEvent recognized_def)

lemma stage_view_process_unrecognized:
  "\<forall>x\<in>set post. \<not> recognized x \<and> status x \<noteq> Some ''complete'' \<Longrightarrow>
   stage_view (process post j s) = stage_view s"
proof (induction post arbitrary: s)
  case Nil
  then show ?case by (simp add: process_def)
next
  case (Cons x post)
  then have "stage_view (process post j (handleProgressEvent x j s)) =
             stage_view (handleProgressEvent x j s)"
    by simp
  also have "\<dots> = stage_view s"
    using Cons.prems by (simp add: stage_view_unrecognized)
  finally show ?case by (simp add: process_Cons)
qed

lemma stage_view_after_prefix:
  assumes "recognized e" and "\<forall>x\<in>set pre. status x \<noteq> Some ''complete''"
  shows "stage_view (handleProgressEvent e j (process pre j s)) =
         stage_view (handleProgressEvent e j s)"
  using assms(1) slots_process [OF assms(2), of _ _ j s]
  by (simp add: stage_view_def steps_handleProgressEvent lines_handleProgressEvent
      recognized_def finish_process length_lines_process toggle_lines_def)

lemma stage_view_last_recognized:
  assumes "recognized e" and "\<forall>x\<in>set pre. status x \<noteq> Some ''complete''"
    and "\<forall>x\<in>set post. \<not> recognized x \<and> status x \<noteq> Some ''complete''"
  shows "stage_view (process (pre @ e # post) j s) = stage_view (handleProgressEvent e j s)"
proof -
  have "stage_view (process (pre @ e # post) j s) =
        stage_view (process post j (handleProgressEvent e j (process pre j s)))"
    by (simp add: process_append process_Cons)
  also have "\<dots> = stage_view (handleProgressEvent e j (process pre j s))"
    using assms(3) by (rule stage_view_process_unrecognized)
  also have "\<dots> = stage_view (handleProgressEvent e j s)"
    using assms(1) assms(2) by (rule stage_view_after_prefix)
  finally show ?thesis .
qed

text \<open>
  Claim C10, as amended. Take two event sequences with the same last recognized event,
  in which no event before it and no event after it has status \<open>complete\<close>. Started on
  the same page they render the same stage state, which is the one the last recognized
  event renders on its own.
\<close>

theorem stage_view_from_last_recognized_event:
  assumes "recognized e"
    and "\<forall>x\<in>set pre1. status x \<noteq> Some ''complete''"
    and "\<forall>x\<in>set post1. \<not> recognized x \<and> status x \<noteq> Some ''complete''"
    and "\<forall>x\<in>set pre2. status x \<noteq> Some ''complete''"
    and "\<forall>x\<in>set post2. \<not> recognized x \<and> status x \<noteq> Some ''complete''"
  shows "stage_view (process (pre1 @ e # post1) jobId s) =
           stage_view (process (pre2 @ e # post2) jobId s) \<and>
         stage_view (process (pre1 @ e # post1) jobId s) = stage_view (handleProgressEvent e jobId s)"
  using stage_view_last_recognized [OF assms(1) assms(2) assms(3), of jobId s]
    stage_view_last_recognized [OF assms(1) assms(4) assms(5), of jobId s]
  by simp

theorem stage_view_from_last_recognized_event_witness:
  "recognized (running_event ''translate'' 50) \<and>
   stage_view (process ([running_event ''render'' 90] @ running_event ''translate'' 50 #
                         [running_event ''heartbeat'' (- 1)]) ''job1'' (resetProgress example_page)) =
   stage_view (process ([running_event ''download'' 10, running_event ''transcribe'' 30] @
                         running_event ''translate'' 50 # []) ''job1'' (resetProgress example_page))"
proof -
  have r: "recognized (running_event ''translate'' 50)"
    by (simp add: recognized_def running_event_def STEP_ORDER_def)
  have a: "\<forall>x\<in>set [running_event ''render'' 90]. status x \<noteq> Some ''complete''"
    by (simp add: running_event_def)
  have b: "\<forall>x\<in>set [running_event ''heartbeat'' (- 1)]. \<not> recognized x \<and> status x \<noteq> Some ''complete''"
    by (simp add: running_event_def recognized_def STEP_ORDER_def)
  have c: "\<forall>x\<in>set [running_event ''download'' 10, running_event ''transcribe'' 30].
             status x \<noteq> Some ''complete''"
    by (simp add: running_event_def)
  have d: "\<forall>x\<in>set []. \<not> recognized x \<and> status x \<noteq> Some ''complete''"
    by simp
  from stage_view_from_last_recognized_event [OF r a b c d, of "''job1''" "resetProgress example_page"] r
  show ?thesis by simp
qed

text \<open>
  Claim C10 as stated fails: an event with status \<open>complete\<close> and a step that is not
  recognized marks every stage done, although the last recognized event is unchanged.
\<close>

theorem later_complete_event_overrides:
  "recognized (running_event ''translate'' 50) \<and>
   \<not> recognized (complete_event ''heartbeat'' 100) \<and>
   stage_view (process [running_event ''translate'' 50] ''job1'' (resetProgress example_page)) \<noteq>
   stage_view (process [running_event ''translate'' 50, complete_event ''heartbeat'' 100] ''job1''
                 (resetProgress example_page))"
  by (simp add: process_def recognized_def running_event_def complete_event_def stage_view_def
      steps_handleProgressEvent lines_handleProgressEvent example_page_def resetProgress_def
      STEP_ORDER_def clear_step_def mark_step_def finish_step_def Let_def toggle_lines_def)

end
